theory Spec2Isabelle
  imports Main "HOL-Library.Sublist"
begin

section \<open>Text primitives of the script\<close>

text \<open>
  Python text is modelled as \<open>string\<close>; a character stands for one code point
  (the model covers the code points below 256). The operations below are the
  ones \<open>nmap_oui_update.py\<close> applies to text: the \<open>in\<close> operator, \<open>str.split\<close>
  on a line feed, \<open>str.strip\<close>, the regular expression of the merge loop, and
  the newline translation of files opened in text mode.
\<close>

abbreviation TAB :: char where "TAB \<equiv> CHR 0x09"
abbreviation LF :: char where "LF \<equiv> CHR 0x0A"
abbreviation CR :: char where "CR \<equiv> CHR 0x0D"
abbreviation ESC :: char where "ESC \<equiv> CHR 0x1B"
abbreviation BSL :: char where "BSL \<equiv> CHR 0x5C"

text \<open>\<open>sub in s\<close>: \<open>sub\<close> occurs in \<open>s\<close> as a contiguous run of characters.\<close>

fun str_contains :: "string \<Rightarrow> string \<Rightarrow> bool" where
  "str_contains [] sub = (sub = [])"
| "str_contains (c # s) sub = (prefix sub (c # s) \<or> str_contains s sub)"

text \<open>\<open>s.split("\n")\<close>: one piece more than there are line feeds in \<open>s\<close>.\<close>

fun split_lf :: "string \<Rightarrow> string list" where
  "split_lf [] = [[]]"
| "split_lf (c # s) =
     (if c = LF then [] # split_lf s
      else (c # hd (split_lf s)) # tl (split_lf s))"

text \<open>
  \<open>str.isspace\<close> on one character, for the code points below 256: the ASCII
  controls 9 to 13 and 28 to 31, the space, NEL (133) and the no-break space (160).
\<close>

definition is_space :: "char \<Rightarrow> bool" where
  "is_space c =
     (c \<in> set [CHR 0x09, CHR 0x0A, CHR 0x0B, CHR 0x0C, CHR 0x0D,
                CHR 0x1C, CHR 0x1D, CHR 0x1E, CHR 0x1F, CHR 0x20, CHR 0x85, CHR 0xA0])"

text \<open>\<open>s.strip()\<close>: white space removed at both ends.\<close>

definition strip :: "string \<Rightarrow> string" where
  "strip s = rev (dropWhile is_space (rev (dropWhile is_space s)))"

text \<open>The character class \<open>[0-9A-Fa-f]\<close>.\<close>

definition is_hex :: "char \<Rightarrow> bool" where
  "is_hex c = (c \<in> set ''0123456789ABCDEFabcdef'')"

definition MARKER :: string where
  "MARKER = ''(base 16)''"

text \<open>
  \<open>re.search(r"^([0-9A-Fa-f]{6}) +\(base 16\)\t\t(.*)", line)\<close> followed by
  \<open>groups()\<close>. Without the MULTILINE flag \<open>^\<close> matches at the start of the
  text only. The run of spaces has to be followed by an opening parenthesis, so
  it is the whole run; \<open>.*\<close> takes every character up to the first line feed.
  \<open>None\<close> is Python's \<open>None\<close>: no match.
\<close>

definition re_search :: "string \<Rightarrow> (string \<times> string) option" where
  "re_search line =
     (let oui = take 6 line;
          rest = drop 6 line;
          spaces = takeWhile (\<lambda>c. c = CHR '' '') rest;
          tail = dropWhile (\<lambda>c. c = CHR '' '') rest
      in if length oui = 6 \<and> list_all is_hex oui \<and> spaces \<noteq> []
            \<and> prefix (MARKER @ [TAB, TAB]) tail
         then Some (oui, takeWhile (\<lambda>c. c \<noteq> LF) (drop (length MARKER + 2) tail))
         else None)"

text \<open>
  Reading a file opened with \<open>open(path, 'rt')\<close>: universal newlines, that is
  every \<open>\r\n\<close> and every other \<open>\r\<close> is returned as \<open>\n\<close>.
\<close>

fun universal_newlines :: "string \<Rightarrow> string" where
  "universal_newlines [] = []"
| "universal_newlines [c] = (if c = CR then [LF] else [c])"
| "universal_newlines (c # d # s) =
     (if c = CR then
        (if d = LF then LF # universal_newlines s else LF # universal_newlines (d # s))
      else c # universal_newlines (d # s))"

text \<open>\<open>str(n)\<close> for a non-negative integer, as the f-strings format it.\<close>

function str_of_nat :: "nat \<Rightarrow> string" where
  "str_of_nat n =
     (if n < 10 then [char_of (48 + n)]
      else str_of_nat (n div 10) @ [char_of (48 + n mod 10)])"
  by pat_completeness auto
termination
  by (relation "measure id") auto

declare str_of_nat.simps [simp del]

text \<open>\<open>os.path.join(a, b)\<close> of \<open>posixpath\<close>, for two components.\<close>

definition path_join :: "string \<Rightarrow> string \<Rightarrow> string" where
  "path_join a b =
     (if prefix ''/'' b then b
      else if a = [] \<or> last a = CHR ''/'' then a @ b
      else a @ ''/'' @ b)"

section \<open>Constants\<close>

definition IEEE_URL :: string where "IEEE_URL = ''https://standards-oui.ieee.org/''"
definition NMAP_OUI :: string where "NMAP_OUI = ''/usr/share/nmap/nmap-mac-prefixes''"
definition OUI_DATA :: string where "OUI_DATA = ''ieee_oui_data.txt''"
definition RED :: string where "RED = ESC # ''[31;1m''"
definition GRN :: string where "GRN = ESC # ''[32;1m''"
definition YLW :: string where "YLW = ESC # ''[33;1m''"
definition BLU :: string where "BLU = ESC # ''[34;1m''"
definition NC :: string where "NC = ESC # ''[m''"

definition BANNER :: string where
  "BANNER = concat
     [[LF],
      ''       _____ ______________  ______  ______'', [LF],
      ''      / ___// ____/ ____/ / / / __ '', [BSL], ''/ ____/'', [LF],
      ''      '', [BSL], ''__ '', [BSL], ''/ __/ / /   / / / / /_/ / __/'', [LF],
      ''     ___/ / /___/ /___/ /_/ / _, _/ /___'', [LF],
      ''    /____/_____/'', [BSL], ''____/'', [BSL], ''____/_/ |_/_____/'', [LF],
      [LF],
      ''        ________  __________  _____'', [LF],
      ''       /  _/ __ '', [BSL], ''/ ____/   | / ___/'', [LF],
      ''       / // / / / __/ / /| | '', [BSL], ''__ '', [BSL], [LF],
      ''     _/ // /_/ / /___/ ___ |___/ /'', [LF],
      ''    /___/_____/_____/_/  |_/____/'', [LF]]"

definition SCRIPT :: string where
  "SCRIPT = [LF] @ ''  ---===[ NMAP OUI UPDATE SCRIPT V1.0 ]===---'' @ [LF]"

definition UPDATED :: string where "UPDATED = ''nmap-mac-prefixes_updated''"

section \<open>The world the script runs in\<close>

text \<open>
  Exceptions of the Python runtime and of the libraries that the script lets
  propagate. A function that may raise returns \<open>exn + 'a\<close> beside the world.
\<close>

datatype exn =
    AttributeError
  | FileNotFoundError string
  | FileExistsError string
  | OSError string
  | RequestException

type_synonym 'a result = "exn + 'a"

text \<open>Calls that reach the file system or the network, logged as attempted.\<close>

datatype syscall =
    IsDir string
  | MkDir string
  | CopyFile string string
  | ReadFile string
  | WriteFile string
  | HttpGet string

text \<open>
  \<open>euid\<close> is what \<open>os.geteuid()\<close> returns, \<open>program_path\<close> the directory of the
  script (\<open>os.path.realpath(os.path.dirname(__file__))\<close>), \<open>clock\<close> the value of
  \<open>datetime.now().strftime("%Y%m%d.%H%M%S")\<close>. \<open>files\<close> gives each existing
  regular file its content as text (the characters as stored, before any newline
  translation), \<open>dirs\<close> the existing directories; \<open>writable p\<close> says
  whether the system lets the process create or overwrite \<open>p\<close>.
  \<open>response\<close> is the answer to the GET request, status code and text, or
  \<open>None\<close> when the request raises. \<open>stdout\<close> is everything written to the
  standard output, \<open>calls\<close> the log of file system and network calls.
\<close>

record world =
  euid :: nat
  program_path :: string
  clock :: string
  files :: "string \<rightharpoonup> string"
  dirs :: "string \<Rightarrow> bool"
  writable :: "string \<Rightarrow> bool"
  response :: "(nat \<times> string) option"
  stdout :: string
  calls :: "syscall list"

definition stdout_write :: "string \<Rightarrow> world \<Rightarrow> world" where
  "stdout_write s w = w\<lparr>stdout := stdout w @ s\<rparr>"

text \<open>\<open>print(s)\<close>: the text and a line feed.\<close>

definition py_print :: "string \<Rightarrow> world \<Rightarrow> world" where
  "py_print s w = stdout_write (s @ [LF]) w"

text \<open>
  \<open>open(path, 'rt', encoding='utf-8')\<close> and \<open>read()\<close>; \<open>open(path, 'wt',
  encoding='utf-8')\<close>, \<open>write(data)\<close> and \<open>flush()\<close> (on POSIX a line feed is
  written as it is); \<open>shutil.copyfile\<close>, which copies the content untranslated;
  \<open>os.path.isdir\<close> and \<open>os.mkdir\<close>.
\<close>

definition read_text :: "string \<Rightarrow> world \<Rightarrow> string result \<times> world" where
  "read_text path w =
     (let w' = w\<lparr>calls := calls w @ [ReadFile path]\<rparr>
      in case files w path of
           None \<Rightarrow> (Inl (FileNotFoundError path), w')
         | Some data \<Rightarrow> (Inr (universal_newlines data), w'))"

definition write_text :: "string \<Rightarrow> string \<Rightarrow> world \<Rightarrow> unit result \<times> world" where
  "write_text path data w =
     (let w' = w\<lparr>calls := calls w @ [WriteFile path]\<rparr>
      in if writable w path
         then (Inr (), w'\<lparr>files := (files w)(path \<mapsto> data)\<rparr>)
         else (Inl (OSError path), w'))"

definition copyfile :: "string \<Rightarrow> string \<Rightarrow> world \<Rightarrow> unit result \<times> world" where
  "copyfile src dst w =
     (let w' = w\<lparr>calls := calls w @ [CopyFile src dst]\<rparr>
      in case files w src of
           None \<Rightarrow> (Inl (FileNotFoundError src), w')
         | Some data \<Rightarrow>
             if writable w dst
             then (Inr (), w'\<lparr>files := (files w)(dst \<mapsto> data)\<rparr>)
             else (Inl (OSError dst), w'))"

definition isdir :: "string \<Rightarrow> world \<Rightarrow> bool \<times> world" where
  "isdir path w = (dirs w path, w\<lparr>calls := calls w @ [IsDir path]\<rparr>)"

definition mkdir :: "string \<Rightarrow> world \<Rightarrow> unit result \<times> world" where
  "mkdir path w =
     (let w' = w\<lparr>calls := calls w @ [MkDir path]\<rparr>
      in if dirs w path \<or> files w path \<noteq> None then (Inl (FileExistsError path), w')
         else if writable w path then (Inr (), w'\<lparr>dirs := (dirs w)(path := True)\<rparr>)
         else (Inl (OSError path), w'))"

section \<open>Print functions\<close>

definition print_info :: "string \<Rightarrow> string \<Rightarrow> world \<Rightarrow> world" where
  "print_info msg endline w =
     stdout_write ('' ['' @ BLU @ ''*'' @ NC @ ''] '' @ msg @ endline) w"

definition print_success :: "string \<Rightarrow> world \<Rightarrow> world" where
  "print_success msg w =
     py_print ('' ['' @ GRN @ ''+'' @ NC @ ''] '' @ GRN @ msg @ NC) w"

definition print_error :: "string \<Rightarrow> world \<Rightarrow> world" where
  "print_error msg w =
     py_print ('' ['' @ RED @ ''-'' @ NC @ ''] '' @ RED @ ''ERROR:'' @ NC @ '' '' @ msg) w"

section \<open>Support functions\<close>

definition is_root :: "world \<Rightarrow> bool" where
  "is_root w = (euid w = 0)"

definition get_root_program_path :: "world \<Rightarrow> string" where
  "get_root_program_path w = program_path w"

definition get_timestamp :: "world \<Rightarrow> string" where
  "get_timestamp w = clock w"

definition backup_nmap_oui_file :: "world \<Rightarrow> string result \<times> world" where
  "backup_nmap_oui_file w =
     (let backup_dir = path_join (get_root_program_path w) ''backups'';
          (is_dir, w1) = isdir backup_dir w;
          (made, w2) =
            (if \<not> is_dir
             then mkdir backup_dir
                    (print_info (''Creating backup directory: '' @ BLU @ backup_dir @ NC) [LF] w1)
             else (Inr (), w1))
      in case made of
           Inl e \<Rightarrow> (Inl e, w2)
         | Inr _ \<Rightarrow>
             (let backup_filename = ''nmap-mac-prefixes.'' @ get_timestamp w2;
                  dst = path_join backup_dir backup_filename;
                  w3 = print_info (''Creating backup of nmap-mac-prefixes: '' @ BLU
                                     @ backup_filename @ NC) [LF] w2
              in case copyfile NMAP_OUI dst w3 of
                   (Inl e, w4) \<Rightarrow> (Inl e, w4)
                 | (Inr _, w4) \<Rightarrow> (Inr dst, w4)))"

text \<open>\<open>requests.get(IEEE_URL)\<close>: the status code and the text of the response.\<close>

definition requests_get :: "string \<Rightarrow> world \<Rightarrow> (nat \<times> string) result \<times> world" where
  "requests_get url w =
     (let w' = w\<lparr>calls := calls w @ [HttpGet url]\<rparr>
      in case response w of
           None \<Rightarrow> (Inl RequestException, w')
         | Some res \<Rightarrow> (Inr res, w'))"

definition download_ieee_oui_file :: "world \<Rightarrow> bool result \<times> world" where
  "download_ieee_oui_file w =
     (let w1 = print_info ''Downloading latest copy of OUI data from IEEE...'' [LF] w;
          dst = path_join (get_root_program_path w1) OUI_DATA
      in case requests_get IEEE_URL w1 of
           (Inl e, w2) \<Rightarrow> (Inl e, w2)
         | (Inr (status_code, text), w2) \<Rightarrow>
             if status_code = 200 \<and> str_contains text MARKER
             then (case write_text dst text w2 of
                     (Inl e, w3) \<Rightarrow> (Inl e, w3)
                   | (Inr _, w3) \<Rightarrow>
                       (Inr True,
                        print_success (''Downloaded to '' @ BLU @ dst @ NC @ '' (''
                                         @ str_of_nat (length text) @ '' bytes)'') w3))
             else (Inr False,
                   print_error (''Got status code '' @ str_of_nat status_code
                                  @ '' while downloading'') w2))"

section \<open>The merge stage\<close>

text \<open>The line appended for a new record: \<open>f"{oui} {org.strip()}\n"\<close>.\<close>

definition record_line :: "string \<times> string \<Rightarrow> string" where
  "record_line p = fst p @ '' '' @ strip (snd p) @ [LF]"

text \<open>
  One pass of the body of the \<open>for\<close> loop of \<open>parse_oui_file\<close>, on the pair
  \<open>(backup_data, new_count)\<close>. \<open>match.groups()\<close> on \<open>None\<close> raises
  \<open>AttributeError\<close>.
\<close>

definition merge_line ::
  "string \<Rightarrow> string \<times> nat \<Rightarrow> world \<Rightarrow> (string \<times> nat) result \<times> world" where
  "merge_line line st w =
     (case st of (backup_data, new_count) \<Rightarrow>
        if str_contains line MARKER then
          (case re_search line of
             None \<Rightarrow> (Inl AttributeError, w)
           | Some (oui, org) \<Rightarrow>
               if \<not> str_contains backup_data oui then
                 (Inr (backup_data @ record_line (oui, org), new_count + 1),
                  print_info (''Processing data: '' @ GRN @ oui @ '' '' @ BLU @ ''=> ''
                                @ GRN @ org @ NC) [CR]
                    (stdout_write (ESC # ''[K'') w))
               else (Inr st, w))
        else (Inr st, w))"

fun merge_loop ::
  "string list \<Rightarrow> string \<times> nat \<Rightarrow> world \<Rightarrow> (string \<times> nat) result \<times> world" where
  "merge_loop [] st w = (Inr st, w)"
| "merge_loop (line # ls) st w =
     (case merge_line line st w of
        (Inl e, w') \<Rightarrow> (Inl e, w')
      | (Inr st', w') \<Rightarrow> merge_loop ls st' w')"

definition parse_oui_file :: "string \<Rightarrow> world \<Rightarrow> bool result \<times> world" where
  "parse_oui_file backup w =
     (let w1 = print_info ''Processing data: '' [CR] w;
          oui_file = path_join (get_root_program_path w1) OUI_DATA
      in case read_text backup w1 of
           (Inl e, w2) \<Rightarrow> (Inl e, w2)
         | (Inr backup_data, w2) \<Rightarrow>
       (case read_text oui_file w2 of
           (Inl e, w3) \<Rightarrow> (Inl e, w3)
         | (Inr oui_data, w3) \<Rightarrow>
       (case merge_loop (split_lf oui_data) (backup_data, 0) w3 of
           (Inl e, w4) \<Rightarrow> (Inl e, w4)
         | (Inr (merged, new_count), w4) \<Rightarrow>
             (let w5 = print_success (NC @ ''Processing data: ['' @ GRN @ ''DONE'' @ NC @ '']'')
                         (stdout_write (ESC # ''[K'') w4)
              in if new_count \<noteq> 0 then
                   (let w6 = print_success (''Found '' @ str_of_nat new_count @ '' new OUIs'') w5;
                        updated = path_join (get_root_program_path w6) UPDATED;
                        w7 = print_info (''Writing new data to '' @ BLU @ updated @ NC) [LF] w6
                    in case write_text updated merged w7 of
                         (Inl e, w8) \<Rightarrow> (Inl e, w8)
                       | (Inr _, w8) \<Rightarrow> (Inr True, w8))
                 else (Inr False, print_info ''No new records!'' [LF] w5)))))"

section \<open>The install stage and the orchestrator\<close>

definition apply_updated_file :: "world \<Rightarrow> bool result \<times> world" where
  "apply_updated_file w =
     (let updated = path_join (get_root_program_path w) UPDATED;
          w1 = print_info (''Copying '' @ GRN @ updated @ NC @ '' to '' @ BLU @ NMAP_OUI @ NC)
                 [LF] w
      in case copyfile updated NMAP_OUI w1 of
           (Inl e, w2) \<Rightarrow> (Inl e, w2)
         | (Inr _, w2) \<Rightarrow> (Inr True, w2))"

definition main :: "world \<Rightarrow> int result \<times> world" where
  "main w =
     (let w1 = py_print (RED @ BANNER @ YLW @ SCRIPT @ NC) w
      in if \<not> is_root w1 then
           (Inr 1, print_error ''This script must be run as root!'' w1)
         else
           (case backup_nmap_oui_file w1 of
              (Inl e, w2) \<Rightarrow> (Inl e, w2)
            | (Inr backup_copy, w2) \<Rightarrow>
           (case download_ieee_oui_file w2 of
              (Inl e, w3) \<Rightarrow> (Inl e, w3)
            | (Inr downloaded, w3) \<Rightarrow>
                if \<not> downloaded then (Inr 2, w3)
                else
           (case parse_oui_file backup_copy w3 of
              (Inl e, w4) \<Rightarrow> (Inl e, w4)
            | (Inr found, w4) \<Rightarrow>
                if found then
                  (case apply_updated_file w4 of
                     (Inl e, w5) \<Rightarrow> (Inl e, w5)
                   | (Inr applied, w5) \<Rightarrow>
                       if \<not> applied then (Inr 4, w5)
                       else (Inr 0, print_success ''Done son!'' w5))
                else (Inr 0, print_success ''Done son!'' w4)))))"

text \<open>
  \<open>sys.exit(main())\<close>: the exit status of the process. An exception that leaves
  \<open>main\<close> is not caught anywhere; the interpreter prints the traceback and exits
  with status 1.
\<close>

definition exit_status :: "world \<Rightarrow> int \<times> world" where
  "exit_status w =
     (case main w of
        (Inl e, w') \<Rightarrow> (1, w')
      | (Inr code, w') \<Rightarrow> (code, w'))"

section \<open>Vocabulary of the properties\<close>

text \<open>
  The (prefix, organization) pairs that the loop extracts from the lines of a
  document, in the order of the lines: the groups of \<open>re_search\<close> on every line
  that holds the marker and matches.
\<close>

definition extract_records :: "string list \<Rightarrow> (string \<times> string) list" where
  "extract_records ls = List.map_filter re_search (filter (\<lambda>l. str_contains l MARKER) ls)"

text \<open>
  The records that are new, in the words of the specification of the merge
  stage: for each extracted pair in turn, the prefix is looked for anywhere in
  the accumulating buffer; if it is absent the pair is new, and its line is
  appended to the buffer before the next pair is looked at.
\<close>

fun new_records :: "string \<Rightarrow> (string \<times> string) list \<Rightarrow> (string \<times> string) list" where
  "new_records buf [] = []"
| "new_records buf (p # ps) =
     (if str_contains buf (fst p) then new_records buf ps
      else p # new_records (buf @ record_line p) ps)"

text \<open>
  The lines of a text: the pieces between line feeds, where a line feed at the
  end of the text ends the last line and opens no further one. Their number is
  the line count of the text.
\<close>

definition text_lines :: "string \<Rightarrow> string list" where
  "text_lines t =
     (if t = [] then [] else if last t = LF then butlast (split_lf t) else split_lf t)"

text \<open>
  A run as root: the installed table holds one entry, the registry answers with
  that entry and a new one.
\<close>

definition world0 :: world where
  "world0 = \<lparr>euid = 0, program_path = ''/opt/oui'', clock = ''20220608.120000'',
     files = [NMAP_OUI \<mapsto> ''001122 Acme Corp'' @ [LF]],
     dirs = (\<lambda>p. False), writable = (\<lambda>p. True),
     response = Some (200, ''001122     (base 16)'' @ [TAB, TAB] @ ''Acme Corp'' @ [LF]
                            @ ''AABBCC     (base 16)'' @ [TAB, TAB] @ ''Widget Inc'' @ [LF]),
     stdout = [], calls = []\<rparr>"

text \<open>The same run by an unprivileged user.\<close>

definition world_user :: world where
  "world_user = world0\<lparr>euid := 1000\<rparr>"

text \<open>
  The world after the backup and fetch stages of that run, as the merge stage
  finds it; the same with CR LF line ends in the backup and in the document; a
  run in which the registry has nothing new; a run in which the registry answers
  404; and a run in which the installed table cannot be overwritten.
\<close>

definition world_fetched :: world where
  "world_fetched = world0\<lparr>files :=
     [NMAP_OUI \<mapsto> ''001122 Acme Corp'' @ [LF],
      ''/opt/oui/backups/nmap-mac-prefixes.20220608.120000'' \<mapsto> ''001122 Acme Corp'' @ [LF],
      ''/opt/oui/ieee_oui_data.txt'' \<mapsto>
         ''001122     (base 16)'' @ [TAB, TAB] @ ''Acme Corp'' @ [LF]
         @ ''AABBCC     (base 16)'' @ [TAB, TAB] @ ''Widget Inc'' @ [LF]]\<rparr>"

definition world_crlf :: world where
  "world_crlf = world0\<lparr>files :=
     [NMAP_OUI \<mapsto> ''001122 Acme Corp'' @ [CR, LF],
      ''/opt/oui/backups/nmap-mac-prefixes.20220608.120000'' \<mapsto> ''001122 Acme Corp'' @ [CR, LF],
      ''/opt/oui/ieee_oui_data.txt'' \<mapsto>
         ''AABBCC     (base 16)'' @ [TAB, TAB] @ ''Widget Inc'' @ [CR, LF]]\<rparr>"

definition world_current :: world where
  "world_current = world0\<lparr>response :=
     Some (200, ''001122     (base 16)'' @ [TAB, TAB] @ ''Acme Corp'' @ [LF])\<rparr>"


definition world_readonly :: world where
  "world_readonly = world0\<lparr>writable := (\<lambda>p. p \<noteq> NMAP_OUI)\<rparr>"

text \<open>
  The world of the merge stage with a backup whose last line has no line feed,
  and a run in which the raw working file cannot be written.
\<close>

definition world_nolf :: world where
  "world_nolf = world0\<lparr>files :=
     [NMAP_OUI \<mapsto> ''001122 Acme Corp'',
      ''/opt/oui/backups/nmap-mac-prefixes.20220608.120000'' \<mapsto> ''001122 Acme Corp'',
      ''/opt/oui/ieee_oui_data.txt'' \<mapsto>
         ''AABBCC     (base 16)'' @ [TAB, TAB] @ ''Widget Inc'' @ [LF]]\<rparr>"


section \<open>Substring search and the loop invariant\<close>

lemma str_contains_iff: "str_contains s sub \<longleftrightarrow> (\<exists>ps ss. s = ps @ sub @ ss)"
proof (induction s)
  case Nil
  then show ?case by auto
next
  case (Cons c s)
  show ?case
  proof
    assume "str_contains (c # s) sub"
    then consider "prefix sub (c # s)" | "str_contains s sub" by auto
    then show "\<exists>ps ss. c # s = ps @ sub @ ss"
    proof cases
      case 1
      then obtain ss where "c # s = sub @ ss" by (auto simp: prefix_def)
      then have "c # s = [] @ sub @ ss" by simp
      then show ?thesis by blast
    next
      case 2
      with Cons.IH obtain ps ss where "s = ps @ sub @ ss" by blast
      then have "c # s = (c # ps) @ sub @ ss" by simp
      then show ?thesis by blast
    qed
  next
    assume "\<exists>ps ss. c # s = ps @ sub @ ss"
    then obtain ps ss where eq: "c # s = ps @ sub @ ss" by blast
    show "str_contains (c # s) sub"
    proof (cases ps)
      case Nil
      with eq have "prefix sub (c # s)" by (simp add: prefix_def)
      then show ?thesis by simp
    next
      case (Cons p ps')
      with eq have "s = ps' @ sub @ ss" by simp
      with Cons.IH have "str_contains s sub" by blast
      then show ?thesis by simp
    qed
  qed
qed

lemma str_contains_append: "str_contains s sub \<Longrightarrow> str_contains (s @ t) sub"
  unfolding str_contains_iff by (metis append.assoc)

lemma str_contains_record: "str_contains (b @ record_line (oui, org)) oui"
  unfolding str_contains_iff record_line_def by (metis append.assoc fst_conv)

lemma re_search_marker: "re_search l = Some p \<Longrightarrow> str_contains l MARKER"
proof -
  assume a: "re_search l = Some p"
  let ?rest = "drop 6 l"
  let ?tail = "dropWhile (\<lambda>c. c = CHR '' '') ?rest"
  from a have "prefix (MARKER @ [TAB, TAB]) ?tail"
    by (auto simp: re_search_def Let_def split: if_splits)
  then obtain ss where t: "?tail = MARKER @ [TAB, TAB] @ ss" by (auto simp: prefix_def)
  have "l = take 6 l @ takeWhile (\<lambda>c. c = CHR '' '') ?rest @ ?tail" by simp
  with t have "l = (take 6 l @ takeWhile (\<lambda>c. c = CHR '' '') ?rest) @ MARKER @ ([TAB, TAB] @ ss)"
    by simp
  then show ?thesis unfolding str_contains_iff by blast
qed

lemma merge_line_cases:
  assumes "merge_line l (b, n) w = (Inr (b', n'), w')"
  shows "(\<not> str_contains l MARKER \<and> b' = b \<and> n' = n \<and> w' = w) \<or>
     (str_contains l MARKER \<and> (\<exists>oui org. re_search l = Some (oui, org) \<and>
         ((str_contains b oui \<and> b' = b \<and> n' = n \<and> w' = w) \<or>
          (\<not> str_contains b oui \<and> b' = b @ record_line (oui, org) \<and> n' = Suc n))))"
  using assms by (auto simp: merge_line_def split: if_splits option.splits)


lemma extract_records_Cons:
  "extract_records (l # ls) =
     (if str_contains l MARKER
      then (case re_search l of None \<Rightarrow> extract_records ls | Some p \<Rightarrow> p # extract_records ls)
      else extract_records ls)"
  by (simp add: extract_records_def map_filter_simps split: option.splits)

lemma merge_loop_Cons_Inr:
  assumes "merge_loop (l # ls) st w = (Inr r, w')"
  obtains st1 w1 where "merge_line l st w = (Inr st1, w1)" "merge_loop ls st1 w1 = (Inr r, w')"
  using assms by (auto split: prod.splits sum.splits)

lemma merge_loop_inv:
  "merge_loop ls (b, n) w = (Inr (b', n'), w') \<Longrightarrow>
    \<exists>ps. subseq ps (extract_records ls) \<and> b' = b @ concat (map record_line ps)
       \<and> n' = n + length ps
       \<and> distinct (map fst ps) \<and> (\<forall>p\<in>set ps. \<not> str_contains b (fst p))
       \<and> (\<forall>p\<in>set (extract_records ls). str_contains b' (fst p))
       \<and> (\<forall>l\<in>set ls. str_contains l MARKER \<longrightarrow> re_search l \<noteq> None)"
proof (induction ls arbitrary: b n w)
  case Nil
  then show ?case by (simp add: extract_records_def map_filter_simps)
next
  case (Cons l ls)
  from Cons.prems obtain st1 w1 where
    step: "merge_line l (b, n) w = (Inr st1, w1)" and
    rest: "merge_loop ls st1 w1 = (Inr (b', n'), w')"
    by (rule merge_loop_Cons_Inr)
  obtain b1 n1 where st1: "st1 = (b1, n1)" by (cases st1)
  from Cons.IH [OF rest [unfolded st1]] obtain ps where
    ps: "subseq ps (extract_records ls)" "b' = b1 @ concat (map record_line ps)"
        "n' = n1 + length ps" "distinct (map fst ps)"
        "\<forall>p\<in>set ps. \<not> str_contains b1 (fst p)"
        "\<forall>p\<in>set (extract_records ls). str_contains b' (fst p)"
        "\<forall>l\<in>set ls. str_contains l MARKER \<longrightarrow> re_search l \<noteq> None"
    by blast
  from merge_line_cases [OF step [unfolded st1]]
  consider
    (skip) "\<not> str_contains l MARKER" "b1 = b" "n1 = n"
  | (seen) oui org where "str_contains l MARKER" "re_search l = Some (oui, org)"
        "str_contains b oui" "b1 = b" "n1 = n"
  | (new) oui org where "str_contains l MARKER" "re_search l = Some (oui, org)"
        "\<not> str_contains b oui" "b1 = b @ record_line (oui, org)" "n1 = Suc n"
    by blast
  then show ?case
  proof cases
    case skip
    with ps show ?thesis by (auto simp: extract_records_Cons)
  next
    case seen
    have "str_contains b' oui" using seen ps(2) by (simp add: str_contains_append)
    with seen ps show ?thesis
      by (intro exI [of _ ps]) (auto simp: extract_records_Cons)
  next
    case new
    let ?qs = "(oui, org) # ps"
    have in_b1: "str_contains b1 oui" using new by (simp add: str_contains_record)
    then have in_b': "str_contains b' oui" using ps(2) by (simp add: str_contains_append)
    have fresh: "oui \<notin> fst ` set ps" using ps(5) in_b1 by auto
    have old: "\<forall>p\<in>set ps. \<not> str_contains b (fst p)"
      using ps(5) new(4) str_contains_append by blast
    have 1: "subseq ?qs (extract_records (l # ls))"
      using ps(1) new by (simp add: extract_records_Cons)
    have 2: "b' = b @ concat (map record_line ?qs)" using ps(2) new by simp
    have 3: "n' = n + length ?qs" using ps(3) new by simp
    have 4: "distinct (map fst ?qs)" using ps(4) fresh by simp
    have 5: "\<forall>p\<in>set ?qs. \<not> str_contains b (fst p)" using old new by simp
    have 6: "\<forall>p\<in>set (extract_records (l # ls)). str_contains b' (fst p)"
      using ps(6) in_b' new by (simp add: extract_records_Cons)
    have 7: "\<forall>k\<in>set (l # ls). str_contains k MARKER \<longrightarrow> re_search k \<noteq> None"
      using ps(7) new by simp
    from 1 2 3 4 5 6 7 show ?thesis by blast
  qed
qed

lemma merge_loop_fixed:
  "\<forall>l\<in>set ls. str_contains l MARKER \<longrightarrow>
      (\<exists>p. re_search l = Some p \<and> str_contains b (fst p)) \<Longrightarrow>
   merge_loop ls (b, n) w = (Inr (b, n), w)"
proof (induction ls)
  case Nil
  then show ?case by simp
next
  case (Cons l ls)
  then have "merge_line l (b, n) w = (Inr (b, n), w)"
    by (auto simp: merge_line_def)
  with Cons show ?case by simp
qed


lemma merge_line_fst_indep: "fst (merge_line l st w) = fst (merge_line l st v)"
  by (auto simp: merge_line_def split: prod.splits option.splits)

lemma merge_line_world: "\<exists>s. snd (merge_line l st w) = w\<lparr>stdout := s\<rparr>"
proof (cases "snd (merge_line l st w) = w")
  case True
  then have "snd (merge_line l st w) = w\<lparr>stdout := stdout w\<rparr>" by simp
  then show ?thesis by blast
next
  case False
  then show ?thesis
    by (auto simp: merge_line_def print_info_def stdout_write_def
             split: prod.splits option.splits if_splits)
qed

lemma merge_loop_world: "\<exists>s. snd (merge_loop ls st w) = w\<lparr>stdout := s\<rparr>"
proof (induction ls arbitrary: st w)
  case Nil
  have "snd (merge_loop [] st w) = w\<lparr>stdout := stdout w\<rparr>" by simp
  then show ?case by blast
next
  case (Cons l ls)
  obtain r w1 where step: "merge_line l st w = (r, w1)" by (cases "merge_line l st w")
  from merge_line_world [of l st w] step obtain s1 where w1: "w1 = w\<lparr>stdout := s1\<rparr>" by auto
  show ?case
  proof (cases r)
    case (Inl e)
    with step w1 show ?thesis by auto
  next
    case (Inr st1)
    from Cons.IH [of st1 w1] obtain s where "snd (merge_loop ls st1 w1) = w1\<lparr>stdout := s\<rparr>"
      by blast
    with step Inr w1 have "snd (merge_loop (l # ls) st w) = w\<lparr>stdout := s\<rparr>" by simp
    then show ?thesis by blast
  qed
qed

lemma merge_loop_fst_indep: "fst (merge_loop ls st w) = fst (merge_loop ls st v)"
proof (induction ls arbitrary: st w v)
  case Nil
  show ?case by simp
next
  case (Cons l ls)
  obtain r w1 where a: "merge_line l st w = (r, w1)" by (cases "merge_line l st w")
  obtain r' v1 where b: "merge_line l st v = (r', v1)" by (cases "merge_line l st v")
  from merge_line_fst_indep [of l st w v] a b have "r' = r" by simp
  with a b Cons.IH show ?case by (cases r) auto
qed

lemma merge_loop_inv_fst:
  assumes "fst (merge_loop ls (b, n) w) = Inr (b', n')"
  shows "\<exists>ps. subseq ps (extract_records ls) \<and> b' = b @ concat (map record_line ps)
       \<and> n' = n + length ps
       \<and> distinct (map fst ps) \<and> (\<forall>p\<in>set ps. \<not> str_contains b (fst p))
       \<and> (\<forall>p\<in>set (extract_records ls). str_contains b' (fst p))
       \<and> (\<forall>l\<in>set ls. str_contains l MARKER \<longrightarrow> re_search l \<noteq> None)"
proof -
  from assms have "merge_loop ls (b, n) w = (Inr (b', n'), snd (merge_loop ls (b, n) w))"
    by (metis prod.collapse)
  then show ?thesis by (rule merge_loop_inv)
qed

lemma distinct_count_le_1:
  "distinct (map f xs) \<Longrightarrow> length (filter (\<lambda>p. f p = x) xs) \<le> Suc 0"
proof (induction xs)
  case Nil
  show ?case by simp
next
  case (Cons a xs)
  show ?case
  proof (cases "f a = x")
    case True
    with Cons.prems have "\<forall>p\<in>set xs. f p \<noteq> x" by (metis distinct.simps(2) imageI list.simps(9) list.set_map)
    then have "filter (\<lambda>p. f p = x) xs = []" by (simp add: filter_empty_conv)
    with True show ?thesis by simp
  next
    case False
    with Cons show ?thesis by simp
  qed
qed

lemma extract_records_mem:
  "l \<in> set ls \<Longrightarrow> re_search l = Some p \<Longrightarrow> p \<in> set (extract_records ls)"
proof (induction ls)
  case Nil
  then show ?case by simp
next
  case (Cons k ls)
  show ?case
  proof (cases "l = k")
    case True
    with Cons.prems re_search_marker [of k p] show ?thesis
      by (simp add: extract_records_Cons)
  next
    case False
    with Cons have "p \<in> set (extract_records ls)" by simp
    then show ?thesis by (simp add: extract_records_Cons split: option.splits)
  qed
qed

lemmas eval_merge =
  merge_line_def re_search_def MARKER_def is_hex_def record_line_def strip_def is_space_def

lemmas eval_paths = path_join_def OUI_DATA_def NMAP_OUI_def UPDATED_def MARKER_def

section \<open>The stages as functions of the world\<close>

lemma parse_oui_file_result:
  assumes bk: "files w bk = Some old"
      and doc: "files w (path_join (program_path w) OUI_DATA) = Some doc"
      and ml: "fst (merge_loop (split_lf (universal_newlines doc)) (universal_newlines old, 0) w)
                 = Inr (merged, cnt)"
  shows "fst (parse_oui_file bk w) =
           (if cnt \<noteq> 0 then
              (if writable w (path_join (program_path w) UPDATED) then Inr True
               else Inl (OSError (path_join (program_path w) UPDATED)))
            else Inr False)
       \<and> files (snd (parse_oui_file bk w)) =
           (if cnt \<noteq> 0 \<and> writable w (path_join (program_path w) UPDATED)
            then (files w)(path_join (program_path w) UPDATED \<mapsto> merged)
            else files w)
       \<and> calls (snd (parse_oui_file bk w)) =
           calls w @ [ReadFile bk, ReadFile (path_join (program_path w) OUI_DATA)]
             @ (if cnt \<noteq> 0 then [WriteFile (path_join (program_path w) UPDATED)] else [])
       \<and> program_path (snd (parse_oui_file bk w)) = program_path w
       \<and> writable (snd (parse_oui_file bk w)) = writable w"
proof -
  let ?oui = "path_join (program_path w) OUI_DATA"
  let ?ls = "split_lf (universal_newlines doc)"
  let ?wl = "w\<lparr>stdout := stdout w @ '' ['' @ BLU @ ''*'' @ NC @ ''] '' @ ''Processing data: '' @ [CR],
               calls := calls w @ [ReadFile bk, ReadFile ?oui]\<rparr>"
  obtain r w4 where run: "merge_loop ?ls (universal_newlines old, 0) ?wl = (r, w4)"
    by (cases "merge_loop ?ls (universal_newlines old, 0) ?wl")
  from merge_loop_fst_indep [of ?ls "(universal_newlines old, 0)" ?wl w] run ml
  have r: "r = Inr (merged, cnt)" by simp
  from merge_loop_world [of ?ls "(universal_newlines old, 0)" ?wl] run
  obtain s4 where w4: "w4 = ?wl\<lparr>stdout := s4\<rparr>" by auto
  show ?thesis
    using bk doc run r w4
    by (simp add: parse_oui_file_def read_text_def write_text_def print_info_def print_success_def
          py_print_def stdout_write_def get_root_program_path_def Let_def)
qed


lemma parse_oui_file_raises:
  assumes bk: "files w bk = Some old"
      and doc: "files w (path_join (program_path w) OUI_DATA) = Some doc"
      and ml: "fst (merge_loop (split_lf (universal_newlines doc)) (universal_newlines old, 0) w)
                 = Inl e"
  shows "fst (parse_oui_file bk w) = Inl e"
proof -
  let ?oui = "path_join (program_path w) OUI_DATA"
  let ?ls = "split_lf (universal_newlines doc)"
  let ?wl = "w\<lparr>stdout := stdout w @ '' ['' @ BLU @ ''*'' @ NC @ ''] '' @ ''Processing data: '' @ [CR],
               calls := calls w @ [ReadFile bk, ReadFile ?oui]\<rparr>"
  obtain r w4 where run: "merge_loop ?ls (universal_newlines old, 0) ?wl = (r, w4)"
    by (cases "merge_loop ?ls (universal_newlines old, 0) ?wl")
  from merge_loop_fst_indep [of ?ls "(universal_newlines old, 0)" ?wl w] run ml
  have r: "r = Inl e" by simp
  show ?thesis
    using bk doc run r
    by (simp add: parse_oui_file_def read_text_def print_info_def
          stdout_write_def get_root_program_path_def Let_def)
qed

lemma universal_newlines_no_CR: "CR \<notin> set s \<Longrightarrow> universal_newlines s = s"
  by (induction s rule: universal_newlines.induct) auto

lemma split_lf_not_Nil: "split_lf s \<noteq> []"
  by (cases s) auto

lemma split_lf_take_append:
  "take (count_list a LF) (split_lf (a @ b)) = take (count_list a LF) (split_lf a)"
proof (induction a)
  case Nil
  show ?case by simp
next
  case (Cons c a)
  let ?n = "count_list a LF"
  show ?case
  proof (cases "c = LF")
    case True
    with Cons.IH show ?thesis by simp
  next
    case False
    show ?thesis
    proof (cases ?n)
      case 0
      with False show ?thesis by simp
    next
      case (Suc m)
      from Cons.IH Suc have eq: "take (Suc m) (split_lf (a @ b)) = take (Suc m) (split_lf a)"
        by simp
      have "hd (take (Suc m) (split_lf (a @ b))) = hd (split_lf (a @ b))"
        by (simp add: hd_take)
      moreover have "hd (take (Suc m) (split_lf a)) = hd (split_lf a)"
        by (simp add: hd_take)
      ultimately have h: "hd (split_lf (a @ b)) = hd (split_lf a)" using eq by simp
      have "tl (take (Suc m) (split_lf (a @ b))) = take m (tl (split_lf (a @ b)))"
        by (simp add: tl_take)
      moreover have "tl (take (Suc m) (split_lf a)) = take m (tl (split_lf a))"
        by (simp add: tl_take)
      ultimately have t: "take m (tl (split_lf (a @ b))) = take m (tl (split_lf a))"
        using eq by simp
      from False Suc h t show ?thesis by simp
    qed
  qed
qed

lemma split_lf_eval:
  "split_lf (c # s) =
     (if c = LF then [] # split_lf s
      else (case split_lf s of [] \<Rightarrow> [[c]] | l # ls \<Rightarrow> (c # l) # ls))"
  by (cases "split_lf s") (simp_all add: split_lf_not_Nil)

lemma universal_newlines_CR_free: "CR \<notin> set (universal_newlines s)"
  by (induction s rule: universal_newlines.induct) auto

lemma split_lf_chars: "l \<in> set (split_lf s) \<Longrightarrow> set l \<subseteq> set s"
proof (induction s arbitrary: l)
  case Nil
  then show ?case by simp
next
  case (Cons c s)
  obtain x xs where X: "split_lf s = x # xs"
    using split_lf_not_Nil [of s] by (cases "split_lf s") auto
  show ?case
  proof (cases "c = LF")
    case True
    with Cons.prems have "l = [] \<or> l \<in> set (split_lf s)" by simp
    with Cons.IH show ?thesis by auto
  next
    case False
    with Cons.prems X have "l = c # x \<or> l \<in> set xs" by simp
    moreover have "set x \<subseteq> set s" using Cons.IH [of x] X by simp
    moreover have "l \<in> set xs \<Longrightarrow> set l \<subseteq> set s" using Cons.IH [of l] X by simp
    ultimately show ?thesis by auto
  qed
qed

lemma re_search_chars:
  assumes "re_search l = Some p"
  shows "set (fst p) \<subseteq> set l" and "set (snd p) \<subseteq> set l"
proof -
  from assms have f: "fst p = take 6 l"
    and s: "snd p = takeWhile (\<lambda>c. c \<noteq> LF)
                      (drop (length MARKER + 2) (dropWhile (\<lambda>c. c = CHR '' '') (drop 6 l)))"
    by (auto simp: re_search_def Let_def split: if_splits)
  show "set (fst p) \<subseteq> set l" unfolding f by (rule set_take_subset)
  have "set (snd p) \<subseteq> set (drop (length MARKER + 2) (dropWhile (\<lambda>c. c = CHR '' '') (drop 6 l)))"
    unfolding s by (auto dest: set_takeWhileD)
  also have "\<dots> \<subseteq> set (dropWhile (\<lambda>c. c = CHR '' '') (drop 6 l))" by (rule set_drop_subset)
  also have "\<dots> \<subseteq> set (drop 6 l)" by (auto dest: set_dropWhileD)
  also have "\<dots> \<subseteq> set l" by (rule set_drop_subset)
  finally show "set (snd p) \<subseteq> set l" .
qed

lemma strip_chars: "set (strip s) \<subseteq> set s"
  unfolding strip_def by (auto dest!: set_dropWhileD)

lemma extract_records_source:
  "p \<in> set (extract_records ls) \<Longrightarrow> \<exists>l\<in>set ls. re_search l = Some p"
proof (induction ls)
  case Nil
  then show ?case by (simp add: extract_records_def map_filter_simps)
next
  case (Cons l ls)
  then show ?case by (auto simp: extract_records_Cons split: if_splits option.splits)
qed

lemma record_line_CR_free:
  assumes "p \<in> set (extract_records ls)" and "\<forall>l\<in>set ls. CR \<notin> set l"
  shows "CR \<notin> set (record_line p)"
proof -
  from assms(1) obtain l where l: "l \<in> set ls" "re_search l = Some p"
    using extract_records_source by blast
  from re_search_chars [OF l(2)] assms(2) l(1)
  have "CR \<notin> set (fst p)" and "CR \<notin> set (snd p)" by auto
  moreover from this(2) have "CR \<notin> set (strip (snd p))" using strip_chars [of "snd p"] by auto
  ultimately show ?thesis by (simp add: record_line_def)
qed

lemma merge_loop_rerun:
  assumes "fst (merge_loop ls (b, n) w) = Inr (b', n')"
  shows "merge_loop ls (b', m) v = (Inr (b', m), v)"
proof -
  from merge_loop_inv_fst [OF assms] have
    seen: "\<forall>p\<in>set (extract_records ls). str_contains b' (fst p)" and
    ok: "\<forall>l\<in>set ls. str_contains l MARKER \<longrightarrow> re_search l \<noteq> None"
    by blast+
  have "\<forall>l\<in>set ls. str_contains l MARKER \<longrightarrow>
          (\<exists>p. re_search l = Some p \<and> str_contains b' (fst p))"
  proof (intro ballI impI)
    fix l assume l: "l \<in> set ls" and m: "str_contains l MARKER"
    with ok obtain p where p: "re_search l = Some p" by auto
    with l have "p \<in> set (extract_records ls)" by (rule extract_records_mem)
    with seen p show "\<exists>p. re_search l = Some p \<and> str_contains b' (fst p)" by blast
  qed
  then show ?thesis by (rule merge_loop_fixed)
qed

lemma merged_CR_free:
  assumes "fst (merge_loop (split_lf (universal_newlines doc)) (universal_newlines old, 0) w)
             = Inr (merged, cnt)"
  shows "CR \<notin> set merged"
proof -
  let ?ls = "split_lf (universal_newlines doc)"
  from merge_loop_inv_fst [OF assms] obtain ps where
    ps: "subseq ps (extract_records ?ls)"
        "merged = universal_newlines old @ concat (map record_line ps)"
    by blast
  have lines: "\<forall>l\<in>set ?ls. CR \<notin> set l"
    using split_lf_chars [of _ "universal_newlines doc"] universal_newlines_CR_free [of doc]
    by blast
  have "set ps \<subseteq> set (extract_records ?ls)"
    using list_emb_set [OF ps(1)] by auto
  then have "\<forall>p\<in>set ps. CR \<notin> set (record_line p)"
    using record_line_CR_free [OF _ lines] by blast
  then show ?thesis using ps(2) universal_newlines_CR_free [of old] by auto
qed

lemma merge_loop_new_records:
  "merge_loop ls (b, n) w = (Inr (b', n'), w') \<Longrightarrow>
     b' = b @ concat (map record_line (new_records b (extract_records ls)))
     \<and> n' = n + length (new_records b (extract_records ls))"
proof (induction ls arbitrary: b n w)
  case Nil
  then show ?case by (simp add: extract_records_def map_filter_simps)
next
  case (Cons l ls)
  from Cons.prems obtain st1 w1 where
    step: "merge_line l (b, n) w = (Inr st1, w1)" and
    rest: "merge_loop ls st1 w1 = (Inr (b', n'), w')"
    by (rule merge_loop_Cons_Inr)
  obtain b1 n1 where st1: "st1 = (b1, n1)" by (cases st1)
  note IH = Cons.IH [OF rest [unfolded st1]]
  from merge_line_cases [OF step [unfolded st1]]
  consider
    (skip) "\<not> str_contains l MARKER" "b1 = b" "n1 = n"
  | (seen) oui org where "str_contains l MARKER" "re_search l = Some (oui, org)"
        "str_contains b oui" "b1 = b" "n1 = n"
  | (new) oui org where "str_contains l MARKER" "re_search l = Some (oui, org)"
        "\<not> str_contains b oui" "b1 = b @ record_line (oui, org)" "n1 = Suc n"
    by blast
  then show ?case
  proof cases
    case skip
    with IH show ?thesis by (simp add: extract_records_Cons)
  next
    case seen
    with IH show ?thesis by (simp add: extract_records_Cons)
  next
    case new
    with IH show ?thesis by (simp add: extract_records_Cons)
  qed
qed

lemma merge_loop_new_records_fst:
  assumes "fst (merge_loop ls (b, n) w) = Inr (b', n')"
  shows "b' = b @ concat (map record_line (new_records b (extract_records ls)))"
    and "n' = n + length (new_records b (extract_records ls))"
proof -
  from assms have "merge_loop ls (b, n) w = (Inr (b', n'), snd (merge_loop ls (b, n) w))"
    by (metis prod.collapse)
  from merge_loop_new_records [OF this]
  show "b' = b @ concat (map record_line (new_records b (extract_records ls)))"
    and "n' = n + length (new_records b (extract_records ls))"
    by simp_all
qed

lemma new_records_subseq: "subseq (new_records b ps) ps"
  by (induction ps arbitrary: b) auto

lemma new_records_fresh: "p \<in> set (new_records b ps) \<Longrightarrow> \<not> str_contains b (fst p)"
proof (induction ps arbitrary: b)
  case Nil
  then show ?case by simp
next
  case (Cons q ps)
  show ?case
  proof (cases "str_contains b (fst q)")
    case True
    with Cons show ?thesis by simp
  next
    case False
    with Cons.prems have "p = q \<or> p \<in> set (new_records (b @ record_line q) ps)" by simp
    then show ?thesis
    proof
      assume "p = q" with False show ?thesis by simp
    next
      assume "p \<in> set (new_records (b @ record_line q) ps)"
      then have "\<not> str_contains (b @ record_line q) (fst p)" by (rule Cons.IH)
      then show ?thesis using str_contains_append by blast
    qed
  qed
qed

lemma new_records_complete:
  "p \<in> set ps \<Longrightarrow> str_contains (b @ concat (map record_line (new_records b ps))) (fst p)"
proof (induction ps arbitrary: b)
  case Nil
  then show ?case by simp
next
  case (Cons q ps)
  show ?case
  proof (cases "str_contains b (fst q)")
    case True
    show ?thesis
    proof (cases "p = q")
      case True
      with \<open>str_contains b (fst q)\<close> show ?thesis by (simp add: str_contains_append)
    next
      case False
      with Cons.prems have "p \<in> set ps" by simp
      from Cons.IH [OF this, of b] True show ?thesis by simp
    qed
  next
    case False
    have q: "str_contains (b @ record_line q) (fst q)"
      using str_contains_record [of b "fst q" "snd q"] by simp
    show ?thesis
    proof (cases "p = q")
      case True
      with q have "str_contains ((b @ record_line q)
                     @ concat (map record_line (new_records (b @ record_line q) ps))) (fst p)"
        by (simp add: str_contains_append del: append_assoc)
      with False show ?thesis by simp
    next
      case neq: False
      with Cons.prems have "p \<in> set ps" by simp
      from Cons.IH [OF this, of "b @ record_line q"] False show ?thesis by simp
    qed
  qed
qed

lemma split_lf_length: "length (split_lf s) = Suc (count_list s LF)"
proof (induction s)
  case Nil
  show ?case by simp
next
  case (Cons c s)
  obtain x xs where X: "split_lf s = x # xs"
    using split_lf_not_Nil [of s] by (cases "split_lf s") auto
  with Cons show ?case by simp
qed

lemma text_lines_kept:
  assumes "t = [] \<or> last t = LF"
  shows "take (length (text_lines t)) (split_lf (t @ x)) = text_lines t"
proof (cases "t = []")
  case True
  then show ?thesis by (simp add: text_lines_def)
next
  case False
  with assms have tl: "text_lines t = butlast (split_lf t)" by (simp add: text_lines_def)
  have len: "length (butlast (split_lf t)) = count_list t LF"
    by (simp add: split_lf_length)
  have "take (count_list t LF) (split_lf (t @ x)) = take (count_list t LF) (split_lf t)"
    by (rule split_lf_take_append)
  also have "\<dots> = butlast (split_lf t)"
    by (simp add: butlast_conv_take split_lf_length)
  finally have "take (count_list t LF) (split_lf (t @ x)) = butlast (split_lf t)" .
  then show ?thesis by (simp only: tl len)
qed



lemma download_accepts:
  assumes "response w = Some (status, body)"
      and "status = 200" and "str_contains body MARKER"
      and "writable w (path_join (program_path w) OUI_DATA)"
  shows "fst (download_ieee_oui_file w) = Inr True"
    and "files (snd (download_ieee_oui_file w))
           = (files w)(path_join (program_path w) OUI_DATA \<mapsto> body)"
    and "calls (snd (download_ieee_oui_file w))
           = calls w @ [HttpGet IEEE_URL, WriteFile (path_join (program_path w) OUI_DATA)]"
    and "program_path (snd (download_ieee_oui_file w)) = program_path w"
    and "writable (snd (download_ieee_oui_file w)) = writable w"
  using assms
  by (simp_all add: download_ieee_oui_file_def requests_get_def write_text_def print_info_def
        print_success_def py_print_def stdout_write_def get_root_program_path_def Let_def)





lemma first_stages:
  assumes "\<not> dirs w (path_join (program_path w) ''backups'')"
      and "files w (path_join (program_path w) ''backups'') = None"
      and "writable w (path_join (program_path w) ''backups'')"
      and "files w NMAP_OUI = Some t"
      and "writable w (path_join (path_join (program_path w) ''backups'')
                         (''nmap-mac-prefixes.'' @ clock w))"
      and "response w = Some (200, body)"
      and "str_contains body MARKER"
      and "writable w (path_join (program_path w) OUI_DATA)"
  obtains w2 w3 where
        "backup_nmap_oui_file (py_print banner w)
           = (Inr (path_join (path_join (program_path w) ''backups'')
                     (''nmap-mac-prefixes.'' @ clock w)), w2)"
    and "download_ieee_oui_file w2 = (Inr True, w3)"
    and "files w3 = (files w)
           (path_join (path_join (program_path w) ''backups'')
              (''nmap-mac-prefixes.'' @ clock w) \<mapsto> t,
            path_join (program_path w) OUI_DATA \<mapsto> body)"
    and "calls w3 = calls w @
           [IsDir (path_join (program_path w) ''backups''),
            MkDir (path_join (program_path w) ''backups''),
            CopyFile NMAP_OUI (path_join (path_join (program_path w) ''backups'')
                                 (''nmap-mac-prefixes.'' @ clock w)),
            HttpGet IEEE_URL,
            WriteFile (path_join (program_path w) OUI_DATA)]"
    and "program_path w3 = program_path w"
    and "writable w3 = writable w"
proof -
  let ?d = "path_join (program_path w) ''backups''"
  let ?dst = "path_join ?d (''nmap-mac-prefixes.'' @ clock w)"
  let ?oui = "path_join (program_path w) OUI_DATA"
  define w2 where "w2 = snd (backup_nmap_oui_file (py_print banner w))"
  define w3 where "w3 = snd (download_ieee_oui_file w2)"
  have b: "fst (backup_nmap_oui_file (py_print banner w)) = Inr ?dst"
    and f2: "files w2 = (files w)(?dst \<mapsto> t)"
    and c2: "calls w2 = calls w @ [IsDir ?d, MkDir ?d, CopyFile NMAP_OUI ?dst]"
    and p2: "program_path w2 = program_path w"
    and wr2: "writable w2 = writable w"
    and r2: "response w2 = response w"
    using assms(1-5)
    by (simp_all add: w2_def backup_nmap_oui_file_def isdir_def mkdir_def copyfile_def
          print_info_def py_print_def stdout_write_def get_root_program_path_def
          get_timestamp_def Let_def)
  have r: "response w2 = Some (200, body)" using r2 assms(6) by simp
  have wo: "writable w2 (path_join (program_path w2) OUI_DATA)"
    using wr2 p2 assms(8) by simp
  from download_accepts [OF r refl assms(7) wo]
  have d: "fst (download_ieee_oui_file w2) = Inr True"
    and f3: "files w3 = (files w)(?dst \<mapsto> t, ?oui \<mapsto> body)"
    and c3: "calls w3 = calls w @ [IsDir ?d, MkDir ?d, CopyFile NMAP_OUI ?dst,
                                   HttpGet IEEE_URL, WriteFile ?oui]"
    and p3: "program_path w3 = program_path w"
    and wr3: "writable w3 = writable w"
    by (simp_all add: w3_def f2 c2 p2 wr2)
  have "backup_nmap_oui_file (py_print banner w) = (Inr ?dst, w2)"
    using b by (simp add: w2_def prod_eq_iff)
  moreover have "download_ieee_oui_file w2 = (Inr True, w3)"
    using d by (simp add: w3_def prod_eq_iff)
  ultimately show ?thesis using f3 c3 p3 wr3 by (rule that)
qed


lemma apply_updated_file_never_False: "fst (apply_updated_file w) \<noteq> Inr False"
  by (simp add: apply_updated_file_def Let_def split: prod.splits sum.splits)

lemma main_never_4: "fst (main w) \<noteq> Inr 4"
proof -
  have ap: "a" if "apply_updated_file v = (Inr a, v')" for v v' a
    using apply_updated_file_never_False [of v] that by auto
  show ?thesis
    by (auto simp add: main_def Let_def dest!: ap split: prod.splits sum.splits)
qed


lemma main_install_raises:
  assumes root: "euid w = 0"
      and backup: "backup_nmap_oui_file (py_print (RED @ BANNER @ YLW @ SCRIPT @ NC) w)
                     = (Inr bk, w2)"
      and fetch: "download_ieee_oui_file w2 = (Inr True, w3)"
      and parse: "parse_oui_file bk w3 = (Inr True, w4)"
      and upd: "files w4 (path_join (program_path w4) UPDATED) = Some merged"
      and ro: "\<not> writable w4 NMAP_OUI"
  shows "fst (main w) = Inl (OSError NMAP_OUI)" and "files (snd (main w)) = files w4"
proof -
  have a: "apply_updated_file w4 =
             (Inl (OSError NMAP_OUI),
              (print_info (''Copying '' @ GRN @ path_join (program_path w4) UPDATED @ NC
                             @ '' to '' @ BLU @ NMAP_OUI @ NC) [LF] w4)
                \<lparr>calls := calls w4 @ [CopyFile (path_join (program_path w4) UPDATED) NMAP_OUI]\<rparr>)"
    using upd ro
    by (simp add: apply_updated_file_def copyfile_def print_info_def stdout_write_def
          get_root_program_path_def Let_def)
  have m: "main w = (case apply_updated_file w4 of
                       (Inl e, w5) \<Rightarrow> (Inl e, w5)
                     | (Inr applied, w5) \<Rightarrow>
                         if \<not> applied then (Inr 4, w5)
                         else (Inr 0, print_success ''Done son!'' w5))"
    using root backup fetch parse
    by (simp add: main_def is_root_def py_print_def stdout_write_def)
  show "fst (main w) = Inl (OSError NMAP_OUI)" by (simp add: m a)
  show "files (snd (main w)) = files w4"
    by (simp add: m a print_info_def stdout_write_def)
qed

lemma main_readonly:
  shows "fst (main world_readonly) = Inl (OSError NMAP_OUI)"
    and "files (snd (main world_readonly)) ''/opt/oui/nmap-mac-prefixes_updated''
           = Some (''001122 Acme Corp'' @ [LF] @ ''AABBCC Widget Inc'' @ [LF])"
proof -
  let ?bk = "''/opt/oui/backups/nmap-mac-prefixes.20220608.120000''"
  let ?doc = "''001122     (base 16)'' @ [TAB, TAB] @ ''Acme Corp'' @ [LF]
                @ ''AABBCC     (base 16)'' @ [TAB, TAB] @ ''Widget Inc'' @ [LF]"
  let ?merged = "''001122 Acme Corp'' @ [LF] @ ''AABBCC Widget Inc'' @ [LF]"
  have h1: "euid world_readonly = 0" by (simp add: world_readonly_def world0_def)
  obtain w2 w3 where
        h2: "backup_nmap_oui_file (py_print (RED @ BANNER @ YLW @ SCRIPT @ NC) world_readonly)
               = (Inr ?bk, w2)"
    and h3: "download_ieee_oui_file w2 = (Inr True, w3)"
    and f3: "files w3 = [NMAP_OUI \<mapsto> ''001122 Acme Corp'' @ [LF],
                         ?bk \<mapsto> ''001122 Acme Corp'' @ [LF],
                         ''/opt/oui/ieee_oui_data.txt'' \<mapsto> ?doc]"
    and p3: "program_path w3 = ''/opt/oui''"
    and wr3: "writable w3 = (\<lambda>p. p \<noteq> NMAP_OUI)"
    by (rule first_stages [of world_readonly "''001122 Acme Corp'' @ [LF]" ?doc
          "RED @ BANNER @ YLW @ SCRIPT @ NC"])
       (simp_all add: world_readonly_def world0_def eval_paths)
  have bk: "files w3 ?bk = Some (''001122 Acme Corp'' @ [LF])"
    by (simp add: f3 NMAP_OUI_def)
  have doc: "files w3 (path_join (program_path w3) OUI_DATA) = Some ?doc"
    by (simp add: f3 p3 eval_paths)
  have ml: "fst (merge_loop (split_lf (universal_newlines ?doc))
                   (universal_newlines (''001122 Acme Corp'' @ [LF]), 0) w3)
              = Inr (?merged, 1)"
    by (simp add: eval_merge split_lf_eval del: split_lf.simps(2))
  define w4 where "w4 = snd (parse_oui_file ?bk w3)"
  from parse_oui_file_result [OF bk doc ml]
  have r4: "fst (parse_oui_file ?bk w3) = Inr True"
    and f4: "files w4 = (files w3)(''/opt/oui/nmap-mac-prefixes_updated'' \<mapsto> ?merged)"
    and p4: "program_path w4 = ''/opt/oui''"
    and wr4: "writable w4 = (\<lambda>p. p \<noteq> NMAP_OUI)"
    by (simp_all add: w4_def p3 wr3 eval_paths)
  have h4: "parse_oui_file ?bk w3 = (Inr True, w4)"
    using r4 by (simp add: w4_def prod_eq_iff)
  have upd: "files w4 (path_join (program_path w4) UPDATED) = Some ?merged"
    by (simp add: f4 p4 eval_paths)
  have ro: "\<not> writable w4 NMAP_OUI" by (simp add: wr4)
  from main_install_raises [OF h1 h2 h3 h4 upd ro]
  have m: "fst (main world_readonly) = Inl (OSError NMAP_OUI)"
    and fm: "files (snd (main world_readonly)) = files w4"
    by simp_all
  from m fm show "fst (main world_readonly) = Inl (OSError NMAP_OUI)"
    and "files (snd (main world_readonly)) ''/opt/oui/nmap-mac-prefixes_updated''
           = Some (''001122 Acme Corp'' @ [LF] @ ''AABBCC Widget Inc'' @ [LF])"
    by (simp_all add: f4)
qed

lemma exit_status_readonly: "fst (exit_status world_readonly) = 1"
  using main_readonly(1) by (cases "main world_readonly") (simp add: exit_status_def)

lemma exit_status_user: "fst (exit_status world_user) = 1"
  by (simp add: exit_status_def main_def is_root_def py_print_def stdout_write_def
        world_user_def world0_def)

section \<open>Properties of the merge loop\<close>

text \<open>
  C4. An extracted (prefix, organization) pair whose prefix occurs anywhere in
  the accumulating buffer, as a plain substring, leaves the buffer and the
  new-record counter as they are: no line is appended, nothing is counted (and
  nothing is printed).
\<close>

theorem merge_line_prefix_present:
  assumes "re_search line = Some (oui, org)" and "str_contains buf oui"
  shows "merge_line line (buf, n) w = (Inr (buf, n), w)"
  using assms re_search_marker [OF assms(1)] by (simp add: merge_line_def)

theorem merge_line_prefix_present_witness:
  "re_search (''001122     (base 16)'' @ [TAB, TAB] @ ''Acme Corp'') = Some (''001122'', ''Acme Corp'')
   \<and> str_contains (''# vendor 3001122x'' @ [LF]) ''001122''
   \<and> merge_line (''001122     (base 16)'' @ [TAB, TAB] @ ''Acme Corp'')
        (''# vendor 3001122x'' @ [LF], 7) world0
      = (Inr (''# vendor 3001122x'' @ [LF], 7), world0)"
proof -
  have h1: "re_search (''001122     (base 16)'' @ [TAB, TAB] @ ''Acme Corp'')
              = Some (''001122'', ''Acme Corp'')"
    by (simp add: re_search_def MARKER_def is_hex_def)
  have h2: "str_contains (''# vendor 3001122x'' @ [LF]) ''001122''" by simp
  from merge_line_prefix_present [OF h1 h2, of 7 world0] h1 h2 show ?thesis by simp
qed

text \<open>
  C9. In one run of the loop at most one line is appended for any prefix, also
  when several matching lines of the document carry it: the buffer grows by the
  record lines of a subsequence of the extracted pairs, the counter by their
  number, and no prefix occurs twice among them.
\<close>

theorem merge_loop_once_per_prefix:
  assumes "fst (merge_loop ls (b, n) w) = Inr (b', n')"
  shows "\<exists>ps. subseq ps (extract_records ls)
            \<and> b' = b @ concat (map record_line ps)
            \<and> n' = n + length ps
            \<and> (\<forall>x. length (filter (\<lambda>p. fst p = x) ps) \<le> 1)"
proof -
  from merge_loop_inv_fst [OF assms] obtain ps where
    "subseq ps (extract_records ls)" "b' = b @ concat (map record_line ps)"
    "n' = n + length ps" "distinct (map fst ps)"
    by blast
  moreover from this(4) have "\<forall>x. length (filter (\<lambda>p. fst p = x) ps) \<le> 1"
    using distinct_count_le_1 [of fst ps] by simp
  ultimately show ?thesis by blast
qed

theorem merge_loop_once_per_prefix_witness:
  "fst (merge_loop
          [''AABBCC     (base 16)'' @ [TAB, TAB] @ ''Widget Inc'',
           ''AABBCC     (base 16)'' @ [TAB, TAB] @ ''Widget Incorporated'']
          (''001122 Acme Corp'' @ [LF], 0) world0)
     = Inr (''001122 Acme Corp'' @ [LF] @ ''AABBCC Widget Inc'' @ [LF], 1)
   \<and> (\<exists>ps. subseq ps (extract_records
                [''AABBCC     (base 16)'' @ [TAB, TAB] @ ''Widget Inc'',
                 ''AABBCC     (base 16)'' @ [TAB, TAB] @ ''Widget Incorporated''])
          \<and> ''001122 Acme Corp'' @ [LF] @ ''AABBCC Widget Inc'' @ [LF]
              = (''001122 Acme Corp'' @ [LF]) @ concat (map record_line ps)
          \<and> (1::nat) = 0 + length ps
          \<and> (\<forall>x. length (filter (\<lambda>p. fst p = x) ps) \<le> 1))"
proof -
  have h: "fst (merge_loop
          [''AABBCC     (base 16)'' @ [TAB, TAB] @ ''Widget Inc'',
           ''AABBCC     (base 16)'' @ [TAB, TAB] @ ''Widget Incorporated'']
          (''001122 Acme Corp'' @ [LF], 0) world0)
     = Inr (''001122 Acme Corp'' @ [LF] @ ''AABBCC Widget Inc'' @ [LF], 1)"
    by (simp add: eval_merge)
  from merge_loop_once_per_prefix [OF h] h show ?thesis by blast
qed

text \<open>
  C3. A second run of the loop over the same document, started on the buffer
  that the first run produced, appends nothing: it returns that buffer with the
  counter at zero (and prints nothing).
\<close>

theorem merge_loop_idempotent:
  assumes "fst (merge_loop ls (b, 0) w) = Inr (b', n')"
  shows "merge_loop ls (b', 0) v = (Inr (b', 0), v)"
  using assms by (rule merge_loop_rerun)

theorem merge_loop_idempotent_witness:
  "fst (merge_loop
          [''001122     (base 16)'' @ [TAB, TAB] @ ''Acme Corp'',
           ''AABBCC     (base 16)'' @ [TAB, TAB] @ ''Widget Inc'']
          (''001122 Acme Corp'' @ [LF], 0) world0)
     = Inr (''001122 Acme Corp'' @ [LF] @ ''AABBCC Widget Inc'' @ [LF], 1)
   \<and> merge_loop
          [''001122     (base 16)'' @ [TAB, TAB] @ ''Acme Corp'',
           ''AABBCC     (base 16)'' @ [TAB, TAB] @ ''Widget Inc'']
          (''001122 Acme Corp'' @ [LF] @ ''AABBCC Widget Inc'' @ [LF], 0) world0
     = (Inr (''001122 Acme Corp'' @ [LF] @ ''AABBCC Widget Inc'' @ [LF], 0), world0)"
proof -
  have h: "fst (merge_loop
          [''001122     (base 16)'' @ [TAB, TAB] @ ''Acme Corp'',
           ''AABBCC     (base 16)'' @ [TAB, TAB] @ ''Widget Inc'']
          (''001122 Acme Corp'' @ [LF], 0) world0)
     = Inr (''001122 Acme Corp'' @ [LF] @ ''AABBCC Widget Inc'' @ [LF], 1)"
    by (simp add: eval_merge)
  from merge_loop_idempotent [OF h, of world0] h show ?thesis by simp
qed

text \<open>
  C10. The containment check compares characters as they are: with a buffer that
  holds the prefix AABBCC in upper case only, a matching line that carries
  aabbcc is new, so its record is appended and the counter goes up by one.
\<close>

theorem merge_line_case_sensitive:
  "str_contains (''AABBCC Widget Inc'' @ [LF]) ''AABBCC''
   \<and> \<not> str_contains (''AABBCC Widget Inc'' @ [LF]) ''aabbcc''
   \<and> re_search (''aabbcc     (base 16)'' @ [TAB, TAB] @ ''Widget Inc'')
       = Some (''aabbcc'', ''Widget Inc'')
   \<and> fst (merge_line (''aabbcc     (base 16)'' @ [TAB, TAB] @ ''Widget Inc'')
            (''AABBCC Widget Inc'' @ [LF], n) w)
       = Inr (''AABBCC Widget Inc'' @ [LF] @ ''aabbcc Widget Inc'' @ [LF], n + 1)"
  by (simp add: eval_merge)

text \<open>
  C1. A line that holds the marker and does not match the pattern is not
  skipped: \<open>re.search\<close> returns \<open>None\<close>, and \<open>match.groups()\<close> raises
  \<open>AttributeError\<close>, which ends the loop and the merge stage. Here the line has
  single spaces where the pattern wants two tabs.
\<close>

theorem merge_line_unmatched_marker_raises:
  "str_contains ''AABBCC (base 16) Widget Inc'' MARKER
   \<and> re_search ''AABBCC (base 16) Widget Inc'' = None
   \<and> merge_line ''AABBCC (base 16) Widget Inc'' (buf, n) w = (Inl AttributeError, w)
   \<and> merge_loop (''AABBCC (base 16) Widget Inc'' # ls) (buf, n) w = (Inl AttributeError, w)"
  by (simp add: merge_line_def re_search_def MARKER_def is_hex_def)

section \<open>Properties of the merge stage on files\<close>

text \<open>
  C2. Whenever the merge stage writes the merged file, its content is the backup
  as the text-mode read returns it (every CR LF and every other CR read as LF),
  followed by the lines of the new records and nothing else: the records are
  those of \<open>new_records\<close>, at least one, taken from the pairs extracted from
  the fetched document in document order; none of their prefixes occurs in the
  backup text, and the prefix of every extracted pair occurs in the output. When
  the backup text is empty or ends in a line feed, its lines are the first lines
  of the output, as many as its line count; a backup without carriage returns
  is in the output unchanged.
\<close>

theorem parse_oui_file_appends:
  assumes run: "parse_oui_file backup w = (Inr True, w')"
      and bk: "files w backup = Some old"
      and doc: "files w (path_join (program_path w) OUI_DATA) = Some doc"
  shows "\<exists>out ps.
            ps = new_records (universal_newlines old)
                   (extract_records (split_lf (universal_newlines doc)))
          \<and> files w' (path_join (program_path w) UPDATED) = Some out
          \<and> out = universal_newlines old @ concat (map record_line ps)
          \<and> ps \<noteq> []
          \<and> subseq ps (extract_records (split_lf (universal_newlines doc)))
          \<and> (\<forall>p\<in>set ps. \<not> str_contains (universal_newlines old) (fst p))
          \<and> (\<forall>p\<in>set (extract_records (split_lf (universal_newlines doc))).
                 str_contains out (fst p))
          \<and> (universal_newlines old = [] \<or> last (universal_newlines old) = LF \<longrightarrow>
                 take (length (text_lines (universal_newlines old))) (split_lf out)
                   = text_lines (universal_newlines old))
          \<and> (CR \<notin> set old \<longrightarrow> out = old @ concat (map record_line ps))"
proof -
  let ?ls = "split_lf (universal_newlines doc)"
  let ?b = "universal_newlines old"
  let ?upd = "path_join (program_path w) UPDATED"
  let ?ps = "new_records ?b (extract_records ?ls)"
  obtain merged cnt where ml: "fst (merge_loop ?ls (?b, 0) w) = Inr (merged, cnt)"
  proof (cases "fst (merge_loop ?ls (?b, 0) w)")
    case (Inl e)
    from parse_oui_file_raises [OF bk doc Inl] run have False by simp
    then show ?thesis ..
  next
    case (Inr st)
    with that show ?thesis by (cases st) auto
  qed
  from parse_oui_file_result [OF bk doc ml] run
  have cnt: "cnt \<noteq> 0" and out: "files w' ?upd = Some merged"
    by (auto split: if_splits)
  from merge_loop_new_records_fst [OF ml]
  have m: "merged = ?b @ concat (map record_line ?ps)" and c: "cnt = 0 + length ?ps"
    by simp_all
  from c cnt have ne: "?ps \<noteq> []" by auto
  have sub: "subseq ?ps (extract_records ?ls)" by (rule new_records_subseq)
  have fresh: "\<forall>p\<in>set ?ps. \<not> str_contains ?b (fst p)"
    using new_records_fresh by blast
  have complete: "\<forall>p\<in>set (extract_records ?ls). str_contains merged (fst p)"
    unfolding m using new_records_complete by blast
  have lines: "?b = [] \<or> last ?b = LF \<longrightarrow>
                 take (length (text_lines ?b)) (split_lf merged) = text_lines ?b"
    unfolding m using text_lines_kept by blast
  have nocr: "CR \<notin> set old \<longrightarrow> merged = old @ concat (map record_line ?ps)"
    using m by (simp add: universal_newlines_no_CR)
  from out m ne sub fresh complete lines nocr show ?thesis by blast
qed

theorem parse_oui_file_appends_witness:
  "fst (parse_oui_file ''/opt/oui/backups/nmap-mac-prefixes.20220608.120000'' world_fetched)
     = Inr True
   \<and> files world_fetched ''/opt/oui/backups/nmap-mac-prefixes.20220608.120000''
       = Some (''001122 Acme Corp'' @ [LF])
   \<and> files world_fetched (path_join (program_path world_fetched) OUI_DATA)
       = Some (''001122     (base 16)'' @ [TAB, TAB] @ ''Acme Corp'' @ [LF]
                 @ ''AABBCC     (base 16)'' @ [TAB, TAB] @ ''Widget Inc'' @ [LF])
   \<and> new_records (''001122 Acme Corp'' @ [LF])
        (extract_records (split_lf (universal_newlines
           (''001122     (base 16)'' @ [TAB, TAB] @ ''Acme Corp'' @ [LF]
            @ ''AABBCC     (base 16)'' @ [TAB, TAB] @ ''Widget Inc'' @ [LF]))))
       = [(''AABBCC'', ''Widget Inc'')]
   \<and> files (snd (parse_oui_file ''/opt/oui/backups/nmap-mac-prefixes.20220608.120000''
                    world_fetched))
        (path_join (program_path world_fetched) UPDATED)
       = Some (''001122 Acme Corp'' @ [LF] @ ''AABBCC Widget Inc'' @ [LF])
   \<and> take 1 (split_lf (''001122 Acme Corp'' @ [LF] @ ''AABBCC Widget Inc'' @ [LF]))
       = text_lines (''001122 Acme Corp'' @ [LF])"
proof -
  let ?bk = "''/opt/oui/backups/nmap-mac-prefixes.20220608.120000''"
  let ?old = "''001122 Acme Corp'' @ [LF]"
  let ?doc = "''001122     (base 16)'' @ [TAB, TAB] @ ''Acme Corp'' @ [LF]
                @ ''AABBCC     (base 16)'' @ [TAB, TAB] @ ''Widget Inc'' @ [LF]"
  let ?merged = "''001122 Acme Corp'' @ [LF] @ ''AABBCC Widget Inc'' @ [LF]"
  have bk: "files world_fetched ?bk = Some ?old"
    by (simp add: world_fetched_def world0_def NMAP_OUI_def)
  have doc: "files world_fetched (path_join (program_path world_fetched) OUI_DATA) = Some ?doc"
    by (simp add: world_fetched_def world0_def eval_paths)
  have ml: "fst (merge_loop (split_lf (universal_newlines ?doc))
                   (universal_newlines ?old, 0) world_fetched)
              = Inr (?merged, 1)"
    by (simp add: eval_merge split_lf_eval del: split_lf.simps(2))
  have wr: "writable world_fetched (path_join (program_path world_fetched) UPDATED)"
    by (simp add: world_fetched_def world0_def)
  from parse_oui_file_result [OF bk doc ml] wr
  have r: "fst (parse_oui_file ?bk world_fetched) = Inr True"
    by simp
  have run: "parse_oui_file ?bk world_fetched
               = (Inr True, snd (parse_oui_file ?bk world_fetched))"
    using r by (simp add: prod_eq_iff)
  have un: "universal_newlines ?old = ?old" by simp
  have nr: "new_records ?old (extract_records (split_lf (universal_newlines ?doc)))
              = [(''AABBCC'', ''Widget Inc'')]"
    by (simp add: extract_records_def map_filter_simps eval_merge split_lf_eval
          del: split_lf.simps(2))
  have tl: "text_lines ?old = [''001122 Acme Corp'']"
    by (simp add: text_lines_def split_lf_eval del: split_lf.simps(2))
  from parse_oui_file_appends [OF run bk doc] obtain out ps where
        o0: "ps = new_records (universal_newlines ?old)
                    (extract_records (split_lf (universal_newlines ?doc)))"
    and o1: "files (snd (parse_oui_file ?bk world_fetched))
               (path_join (program_path world_fetched) UPDATED) = Some out"
    and o2: "out = universal_newlines ?old @ concat (map record_line ps)"
    and o3: "universal_newlines ?old = [] \<or> last (universal_newlines ?old) = LF \<longrightarrow>
               take (length (text_lines (universal_newlines ?old))) (split_lf out)
                 = text_lines (universal_newlines ?old)"
    by (elim exE conjE)
  from o0 have ps: "ps = [(''AABBCC'', ''Widget Inc'')]" by (simp only: un nr)
  from o2 have out: "out = ?merged"
    by (simp add: ps record_line_def strip_def is_space_def)
  have "last ?old = LF" by simp
  with o3 have "take (length (text_lines ?old)) (split_lf out) = text_lines ?old"
    by (simp only: un) blast
  then have ln: "take 1 (split_lf ?merged) = text_lines ?old"
    by (simp only: out tl) (simp add: split_lf_eval del: split_lf.simps(2))
  from r bk doc nr o1 [unfolded out] ln show ?thesis by (intro conjI)
qed

text \<open>
  C2 read for every backup content fails in two ways. On a backup with CR LF
  line ends the merged file does not begin with the content of the backup. On a
  backup whose last line has no line feed the first new record is written onto
  that line, so the first line of the output is not the one line of the backup.
\<close>

theorem parse_oui_file_prefix_counterexample:
  "fst (parse_oui_file ''/opt/oui/backups/nmap-mac-prefixes.20220608.120000'' world_crlf) = Inr True
   \<and> files world_crlf ''/opt/oui/backups/nmap-mac-prefixes.20220608.120000''
       = Some (''001122 Acme Corp'' @ [CR, LF])
   \<and> files (snd (parse_oui_file ''/opt/oui/backups/nmap-mac-prefixes.20220608.120000'' world_crlf))
        ''/opt/oui/nmap-mac-prefixes_updated''
       = Some (''001122 Acme Corp'' @ [LF] @ ''AABBCC Widget Inc'' @ [LF])
   \<and> \<not> prefix (''001122 Acme Corp'' @ [CR, LF])
            (''001122 Acme Corp'' @ [LF] @ ''AABBCC Widget Inc'' @ [LF])
   \<and> fst (parse_oui_file ''/opt/oui/backups/nmap-mac-prefixes.20220608.120000'' world_nolf) = Inr True
   \<and> files world_nolf ''/opt/oui/backups/nmap-mac-prefixes.20220608.120000''
       = Some ''001122 Acme Corp''
   \<and> files (snd (parse_oui_file ''/opt/oui/backups/nmap-mac-prefixes.20220608.120000'' world_nolf))
        ''/opt/oui/nmap-mac-prefixes_updated''
       = Some (''001122 Acme CorpAABBCC Widget Inc'' @ [LF])
   \<and> text_lines ''001122 Acme Corp'' = [''001122 Acme Corp'']
   \<and> take 1 (split_lf (''001122 Acme CorpAABBCC Widget Inc'' @ [LF]))
       = [''001122 Acme CorpAABBCC Widget Inc'']"
proof -
  let ?bk = "''/opt/oui/backups/nmap-mac-prefixes.20220608.120000''"
  let ?doc = "''AABBCC     (base 16)'' @ [TAB, TAB] @ ''Widget Inc'' @ [CR, LF]"
  let ?merged = "''001122 Acme Corp'' @ [LF] @ ''AABBCC Widget Inc'' @ [LF]"
  let ?doc2 = "''AABBCC     (base 16)'' @ [TAB, TAB] @ ''Widget Inc'' @ [LF]"
  let ?merged2 = "''001122 Acme CorpAABBCC Widget Inc'' @ [LF]"
  have bk: "files world_crlf ?bk = Some (''001122 Acme Corp'' @ [CR, LF])"
    by (simp add: world_crlf_def world0_def NMAP_OUI_def)
  have doc: "files world_crlf (path_join (program_path world_crlf) OUI_DATA) = Some ?doc"
    by (simp add: world_crlf_def world0_def eval_paths)
  have ml: "fst (merge_loop (split_lf (universal_newlines ?doc))
                   (universal_newlines (''001122 Acme Corp'' @ [CR, LF]), 0) world_crlf)
              = Inr (?merged, 1)"
    by (simp add: eval_merge split_lf_eval del: split_lf.simps(2))
  have wr: "writable world_crlf (path_join (program_path world_crlf) UPDATED)"
    by (simp add: world_crlf_def world0_def)
  have p: "path_join (program_path world_crlf) UPDATED = ''/opt/oui/nmap-mac-prefixes_updated''"
    by (simp add: world_crlf_def world0_def eval_paths)
  from parse_oui_file_result [OF bk doc ml] wr
  have r: "fst (parse_oui_file ?bk world_crlf) = Inr True"
    and f: "files (snd (parse_oui_file ?bk world_crlf))
              (path_join (program_path world_crlf) UPDATED) = Some ?merged"
    by simp_all
  have bk2: "files world_nolf ?bk = Some ''001122 Acme Corp''"
    by (simp add: world_nolf_def world0_def NMAP_OUI_def)
  have doc2: "files world_nolf (path_join (program_path world_nolf) OUI_DATA) = Some ?doc2"
    by (simp add: world_nolf_def world0_def eval_paths)
  have ml2: "fst (merge_loop (split_lf (universal_newlines ?doc2))
                   (universal_newlines ''001122 Acme Corp'', 0) world_nolf)
              = Inr (?merged2, 1)"
    by (simp add: eval_merge split_lf_eval del: split_lf.simps(2))
  have wr2: "writable world_nolf (path_join (program_path world_nolf) UPDATED)"
    by (simp add: world_nolf_def world0_def)
  have p2: "path_join (program_path world_nolf) UPDATED = ''/opt/oui/nmap-mac-prefixes_updated''"
    by (simp add: world_nolf_def world0_def eval_paths)
  from parse_oui_file_result [OF bk2 doc2 ml2] wr2
  have r2: "fst (parse_oui_file ?bk world_nolf) = Inr True"
    and f2: "files (snd (parse_oui_file ?bk world_nolf))
              (path_join (program_path world_nolf) UPDATED) = Some ?merged2"
    by simp_all
  have tl: "text_lines ''001122 Acme Corp'' = [''001122 Acme Corp'']"
    by (simp add: text_lines_def split_lf_eval del: split_lf.simps(2))
  have ln: "take 1 (split_lf ?merged2) = [''001122 Acme CorpAABBCC Widget Inc'']"
    by (simp add: split_lf_eval del: split_lf.simps(2))
  have np: "\<not> prefix (''001122 Acme Corp'' @ [CR, LF]) ?merged" by simp
  from r bk f [unfolded p] np r2 bk2 f2 [unfolded p2] tl ln show ?thesis by (intro conjI)
qed

text \<open>
  The idempotence of the loop (C3), at the level of the stage: after a run that
  wrote the merged file, a run whose backup holds that file's content and whose
  raw working file holds the same document finds no new record; it returns
  False and only reads. The merged text has no carriage return, so it is read
  back as it was written.
\<close>

corollary parse_oui_file_second_run:
  assumes run1: "parse_oui_file bk w = (Inr True, w1)"
      and bk: "files w bk = Some old"
      and doc: "files w (path_join (program_path w) OUI_DATA) = Some doc"
      and bk2: "files w2 bk2 = files w1 (path_join (program_path w) UPDATED)"
      and doc2: "files w2 (path_join (program_path w2) OUI_DATA) = Some doc"
  shows "fst (parse_oui_file bk2 w2) = Inr False
       \<and> files (snd (parse_oui_file bk2 w2)) = files w2
       \<and> calls (snd (parse_oui_file bk2 w2))
           = calls w2 @ [ReadFile bk2, ReadFile (path_join (program_path w2) OUI_DATA)]"
proof -
  let ?ls = "split_lf (universal_newlines doc)"
  obtain merged cnt where
    ml: "fst (merge_loop ?ls (universal_newlines old, 0) w) = Inr (merged, cnt)"
  proof (cases "fst (merge_loop ?ls (universal_newlines old, 0) w)")
    case (Inl e)
    from parse_oui_file_raises [OF bk doc Inl] run1 have False by simp
    then show ?thesis ..
  next
    case (Inr st)
    with that show ?thesis by (cases st) auto
  qed
  from parse_oui_file_result [OF bk doc ml] run1
  have out: "files w1 (path_join (program_path w) UPDATED) = Some merged"
    by (auto split: if_splits)
  have same: "universal_newlines merged = merged"
    using merged_CR_free [OF ml] by (rule universal_newlines_no_CR)
  have b2: "files w2 bk2 = Some merged" using bk2 out by simp
  have "fst (merge_loop ?ls (merged, 0) w2) = Inr (merged, 0)"
    using merge_loop_rerun [OF ml, of 0 w2] by simp
  then have ml2: "fst (merge_loop ?ls (universal_newlines merged, 0) w2) = Inr (merged, 0)"
    by (simp add: same)
  from parse_oui_file_result [OF b2 doc2 ml2] show ?thesis by simp
qed

section \<open>Properties of the fetch stage\<close>




section \<open>Properties of the orchestrator\<close>




text \<open>
  C7. When the loop of the merge stage counts zero new records, \<open>main\<close>
  returns 0, which becomes the exit status; after the fetch stage the only calls
  are the two reads of the merge stage, so the updated working file is not
  written and the install copy is not made, and the files are as the fetch stage
  left them.
\<close>

theorem main_no_new_records:
  assumes root: "euid w = 0"
      and backup: "backup_nmap_oui_file (py_print (RED @ BANNER @ YLW @ SCRIPT @ NC) w)
                     = (Inr bk, w2)"
      and fetch: "download_ieee_oui_file w2 = (Inr True, w3)"
      and bk: "files w3 bk = Some old"
      and doc: "files w3 (path_join (program_path w3) OUI_DATA) = Some doc"
      and zero: "fst (merge_loop (split_lf (universal_newlines doc)) (universal_newlines old, 0) v)
                   = Inr (merged, 0)"
  shows "fst (main w) = Inr 0
       \<and> fst (exit_status w) = 0
       \<and> files (snd (main w)) = files w3
       \<and> calls (snd (main w)) =
           calls w3 @ [ReadFile bk, ReadFile (path_join (program_path w3) OUI_DATA)]"
proof -
  obtain r4 w4 where p: "parse_oui_file bk w3 = (r4, w4)" by (cases "parse_oui_file bk w3")
  have "fst (merge_loop (split_lf (universal_newlines doc)) (universal_newlines old, 0) w3)
          = Inr (merged, 0)"
    using zero merge_loop_fst_indep [of _ _ w3 v] by simp
  from parse_oui_file_result [OF bk doc this] p
  have r4: "r4 = Inr False" and f4: "files w4 = files w3"
    and c4: "calls w4 = calls w3 @ [ReadFile bk, ReadFile (path_join (program_path w3) OUI_DATA)]"
    by simp_all
  have m: "main w = (Inr 0, print_success ''Done son!'' w4)"
    using root backup fetch p r4
    by (simp add: main_def is_root_def py_print_def stdout_write_def)
  show ?thesis
    using f4 c4
    by (simp add: m exit_status_def print_success_def py_print_def stdout_write_def)
qed

theorem main_no_new_records_witness:
  "euid world_current = 0
   \<and> fst (main world_current) = Inr 0
   \<and> fst (exit_status world_current) = 0
   \<and> files (snd (main world_current)) =
        [NMAP_OUI \<mapsto> ''001122 Acme Corp'' @ [LF],
         ''/opt/oui/backups/nmap-mac-prefixes.20220608.120000'' \<mapsto> ''001122 Acme Corp'' @ [LF],
         ''/opt/oui/ieee_oui_data.txt'' \<mapsto>
            ''001122     (base 16)'' @ [TAB, TAB] @ ''Acme Corp'' @ [LF]]
   \<and> calls (snd (main world_current)) =
        [IsDir ''/opt/oui/backups'', MkDir ''/opt/oui/backups'',
         CopyFile NMAP_OUI ''/opt/oui/backups/nmap-mac-prefixes.20220608.120000'',
         HttpGet IEEE_URL, WriteFile ''/opt/oui/ieee_oui_data.txt'',
         ReadFile ''/opt/oui/backups/nmap-mac-prefixes.20220608.120000'',
         ReadFile ''/opt/oui/ieee_oui_data.txt'']"
proof -
  have h1: "euid world_current = 0" by (simp add: world_current_def world0_def)
  obtain w2 w3 where
        h2: "backup_nmap_oui_file (py_print (RED @ BANNER @ YLW @ SCRIPT @ NC) world_current)
               = (Inr ''/opt/oui/backups/nmap-mac-prefixes.20220608.120000'', w2)"
    and h3: "download_ieee_oui_file w2 = (Inr True, w3)"
    and f3: "files w3 = [NMAP_OUI \<mapsto> ''001122 Acme Corp'' @ [LF],
         ''/opt/oui/backups/nmap-mac-prefixes.20220608.120000'' \<mapsto> ''001122 Acme Corp'' @ [LF],
         ''/opt/oui/ieee_oui_data.txt'' \<mapsto>
            ''001122     (base 16)'' @ [TAB, TAB] @ ''Acme Corp'' @ [LF]]"
    and c3: "calls w3 = [IsDir ''/opt/oui/backups'', MkDir ''/opt/oui/backups'',
         CopyFile NMAP_OUI ''/opt/oui/backups/nmap-mac-prefixes.20220608.120000'',
         HttpGet IEEE_URL, WriteFile ''/opt/oui/ieee_oui_data.txt'']"
    and p3: "program_path w3 = ''/opt/oui''"
    by (rule first_stages [of world_current "''001122 Acme Corp'' @ [LF]"
          "''001122     (base 16)'' @ [TAB, TAB] @ ''Acme Corp'' @ [LF]"
          "RED @ BANNER @ YLW @ SCRIPT @ NC"])
       (simp_all add: world_current_def world0_def eval_paths)
  have h4: "files w3 ''/opt/oui/backups/nmap-mac-prefixes.20220608.120000''
              = Some (''001122 Acme Corp'' @ [LF])"
    by (simp add: f3 NMAP_OUI_def)
  have h5: "files w3 (path_join (program_path w3) OUI_DATA)
              = Some (''001122     (base 16)'' @ [TAB, TAB] @ ''Acme Corp'' @ [LF])"
    by (simp add: f3 p3 eval_paths)
  have h6: "fst (merge_loop
                  (split_lf (universal_newlines
                     (''001122     (base 16)'' @ [TAB, TAB] @ ''Acme Corp'' @ [LF])))
                  (universal_newlines (''001122 Acme Corp'' @ [LF]), 0) world0)
              = Inr (''001122 Acme Corp'' @ [LF], 0)"
    by (simp add: eval_merge split_lf_eval del: split_lf.simps(2))
  from main_no_new_records [OF h1 h2 h3 h4 h5 h6] h1 show ?thesis
    by (simp add: f3 c3 p3 eval_paths)
qed

text \<open>
  C6. A run in which the install copy fails: \<open>shutil.copyfile\<close> raises, nothing
  catches the exception, and the process ends with exit status 1, the status of
  a run without root privileges. The merged working file stays in place. The
  code 4 that \<open>main\<close> reserves for this failure is never returned, since
  \<open>apply_updated_file\<close> either returns True or raises.
\<close>

theorem main_install_failure_exit_code:
  "fst (main world_readonly) = Inl (OSError NMAP_OUI)
   \<and> fst (exit_status world_readonly) = 1
   \<and> fst (exit_status world_user) = 1
   \<and> files (snd (main world_readonly)) ''/opt/oui/nmap-mac-prefixes_updated''
       = Some (''001122 Acme Corp'' @ [LF] @ ''AABBCC Widget Inc'' @ [LF])
   \<and> fst (main v) \<noteq> Inr 4"
  using main_readonly exit_status_readonly exit_status_user main_never_4 [of v]
  by simp

end
